theory Spec2Isabelle
  imports Complex_Main "HOL-Library.Multiset"
begin

section \<open>Python strings\<close>

text \<open>
  A Python \<open>str\<close> is a sequence of Unicode code points: \<open>len\<close>, slicing and
  \<open>in\<close> count code points, so a string is modelled as a list of code points.
  An ASCII literal of the source is written \<open>ascii ''...''\<close>; a literal with a
  non-ASCII letter is spelled out with the code point of that letter.
\<close>

type_synonym pystr = "nat list"

definition ascii :: "string \<Rightarrow> pystr" where
  "ascii s = map of_char s"

text \<open>
  \<open>str.isspace\<close>, \<open>str.strip()\<close>, \<open>str.split()\<close> and the pattern \<open>\s\<close> of
  \<open>re\<close> on a \<open>str\<close> all use the same fixed set of white-space code points.
\<close>

definition isspace :: "nat \<Rightarrow> bool" where
  "isspace c = ((9 \<le> c \<and> c \<le> 13) \<or> (28 \<le> c \<and> c \<le> 32) \<or> c = 133 \<or> c = 160
     \<or> c = 5760 \<or> (8192 \<le> c \<and> c \<le> 8202) \<or> c = 8232 \<or> c = 8233
     \<or> c = 8239 \<or> c = 8287 \<or> c = 12288)"

text \<open>
  The case mappings and the character classes of code points beyond ASCII come from
  the Unicode database of the Python runtime, which is not code of this repository:
  they are a parameter of the model. On a string of ASCII characters only, the
  runtime maps letter by letter, and this is written out.
\<close>

record unicode =
  isalnum_cp :: "nat \<Rightarrow> bool"
  lower_str :: "pystr \<Rightarrow> pystr"
  upper_str :: "pystr \<Rightarrow> pystr"

definition is_ascii :: "pystr \<Rightarrow> bool" where
  "is_ascii s = list_all (\<lambda>c. c < 128) s"

definition ascii_lower :: "nat \<Rightarrow> nat" where
  "ascii_lower c = (if 65 \<le> c \<and> c \<le> 90 then c + 32 else c)"

definition ascii_upper :: "nat \<Rightarrow> nat" where
  "ascii_upper c = (if 97 \<le> c \<and> c \<le> 122 then c - 32 else c)"

definition ascii_alnum :: "nat \<Rightarrow> bool" where
  "ascii_alnum c = ((48 \<le> c \<and> c \<le> 57) \<or> (65 \<le> c \<and> c \<le> 90) \<or> (97 \<le> c \<and> c \<le> 122))"

definition py_lower :: "unicode \<Rightarrow> pystr \<Rightarrow> pystr" where
  "py_lower U s = (if is_ascii s then map ascii_lower s else lower_str U s)"

definition py_upper :: "unicode \<Rightarrow> pystr \<Rightarrow> pystr" where
  "py_upper U s = (if is_ascii s then map ascii_upper s else upper_str U s)"

definition alnum_cp :: "unicode \<Rightarrow> nat \<Rightarrow> bool" where
  "alnum_cp U c = (if c < 128 then ascii_alnum c else isalnum_cp U c)"

text \<open>\<open>s.isalnum()\<close>: at least one character, and every character alphanumeric.\<close>

definition py_isalnum :: "unicode \<Rightarrow> pystr \<Rightarrow> bool" where
  "py_isalnum U s = (s \<noteq> [] \<and> list_all (alnum_cp U) s)"

text \<open>\<open>s.strip()\<close>\<close>

definition py_strip :: "pystr \<Rightarrow> pystr" where
  "py_strip s = rev (dropWhile isspace (rev (dropWhile isspace s)))"

text \<open>
  \<open>s.split()\<close>: the maximal runs of non-white-space characters, in order; \<open>cur\<close>
  holds the current run, reversed.
\<close>

fun split_acc :: "pystr \<Rightarrow> pystr \<Rightarrow> pystr list" where
  "split_acc cur [] = (if cur = [] then [] else [rev cur])"
| "split_acc cur (c # cs) =
     (if isspace c then (if cur = [] then split_acc [] cs else rev cur # split_acc [] cs)
      else split_acc (c # cur) cs)"

definition py_split :: "pystr \<Rightarrow> pystr list" where
  "py_split s = split_acc [] s"

text \<open>\<open>sep.join(xs)\<close>\<close>

fun py_join :: "pystr \<Rightarrow> pystr list \<Rightarrow> pystr" where
  "py_join sep [] = []"
| "py_join sep [x] = x"
| "py_join sep (x # y # ys) = x @ sep @ py_join sep (y # ys)"

text \<open>
  \<open>re.sub(r"\s+", " ", s)\<close>: every maximal run of white space becomes one space;
  \<open>in_ws\<close> says that the previous character was white space.
\<close>

fun re_sub_ws :: "bool \<Rightarrow> pystr \<Rightarrow> pystr" where
  "re_sub_ws in_ws [] = []"
| "re_sub_ws in_ws (c # cs) =
     (if isspace c then (if in_ws then re_sub_ws True cs else 32 # re_sub_ws True cs)
      else c # re_sub_ws False cs)"

text \<open>
  \<open>re.split(r"\s+", s)\<close>: the pieces between maximal runs of white space, the
  empty pieces at both ends included.
\<close>

fun re_split_acc :: "bool \<Rightarrow> pystr \<Rightarrow> pystr \<Rightarrow> pystr list" where
  "re_split_acc in_ws cur [] = [rev cur]"
| "re_split_acc in_ws cur (c # cs) =
     (if isspace c then (if in_ws then re_split_acc True [] cs else rev cur # re_split_acc True [] cs)
      else re_split_acc False (c # cur) cs)"

definition re_split_ws :: "pystr \<Rightarrow> pystr list" where
  "re_split_ws s = re_split_acc False [] s"

text \<open>\<open>needle in hay\<close> on strings\<close>

fun starts_with :: "pystr \<Rightarrow> pystr \<Rightarrow> bool" where
  "starts_with [] hay = True"
| "starts_with (n # ns) [] = False"
| "starts_with (n # ns) (h # hs) = (n = h \<and> starts_with ns hs)"

fun contains :: "pystr \<Rightarrow> pystr \<Rightarrow> bool" where
  "contains needle [] = (needle = [])"
| "contains needle (h # hs) = (starts_with needle (h # hs) \<or> contains needle hs)"

section \<open>Constants and helpers of web.py\<close>

definition AMAZON_DOMAIN :: pystr where
  "AMAZON_DOMAIN = ascii ''https://www.amazon.com.br''"

definition AMAZON_RETAIL_HINTS :: "pystr list" where
  "AMAZON_RETAIL_HINTS =
     [ascii ''amazon'',
      ascii ''amazon.com.br'',
      ascii ''amazon servi'' @ [231] @ ascii ''os de varejo'',
      ascii ''amazon servicos de varejo'']"

definition REQUEST_TIMEOUT :: real where
  "REQUEST_TIMEOUT = 10"

definition SAFEGET_RETRIES_PER_CYCLE :: int where
  "SAFEGET_RETRIES_PER_CYCLE = 2"

definition MAX_BLOCKED_CYCLES :: nat where
  "MAX_BLOCKED_CYCLES = 3"

definition REPROCESSAR_LABEL :: pystr where
  "REPROCESSAR_LABEL = ascii ''Reprocessar''"

definition SEM_OFERTA :: pystr where
  "SEM_OFERTA = ascii ''Sem Oferta''"

definition is_valid_asin :: "unicode \<Rightarrow> pystr \<Rightarrow> bool" where
  "is_valid_asin U a = (let a = py_strip a in length a = 10 \<and> py_isalnum U a)"

definition normalize_spaces :: "pystr \<Rightarrow> pystr" where
  "normalize_spaces s = py_strip (py_join (ascii '' '') (py_split s))"

definition is_amazon_name :: "unicode \<Rightarrow> pystr \<Rightarrow> bool" where
  "is_amazon_name U name =
     (let n = py_strip (py_lower U name)
      in if n = [] then False else list_ex (\<lambda>h. contains h n) AMAZON_RETAIL_HINTS)"

text \<open>
  A \<open>requests.Response\<close> as the program reads it: its status code and its decoded
  body (the attribute \<open>resp.text\<close>, here \<open>resp_text\<close>). \<open>detect_soft_block\<close> receives \<open>None\<close> or a response.
\<close>

record response =
  status_code :: int
  resp_text :: pystr

definition detect_soft_block :: "unicode \<Rightarrow> response option \<Rightarrow> pystr \<Rightarrow> bool" where
  "detect_soft_block U resp html =
     (case resp of
        None \<Rightarrow> True
      | Some r \<Rightarrow>
          if status_code r = 429 \<or> status_code r = 503 then True
          else
            let t = py_lower U html in
            if contains (ascii ''digite os caracteres que voc'' @ [234] @ ascii '' v'' @ [234]) t then True
            else if contains (ascii ''to discuss automated access'') t then True
            else if contains (ascii ''sorry'') t \<and> contains (ascii ''robot'') t then True
            else False)"

section \<open>The session of a worker thread and the network\<close>

text \<open>
  \<open>session.get(url, timeout=timeout)\<close> either raises or returns a response (the
  source also guards against \<open>None\<close>). \<open>Raises\<close> stands for any exception raised
  inside the \<open>try\<close> block of \<open>safe_get\<close>.
\<close>

datatype outcome = Raises | Returns "response option"

text \<open>
  The thread-local slot \<open>_thread_local.session\<close> holds the session of the worker
  thread, or nothing. A session is known by its number; what the remote side answers
  is the network: the outcome of the \<open>k\<close>-th request of this worker, given the
  session, the url and the timeout. \<open>sessions_made\<close> and \<open>requests_made\<close> count
  what the worker has done so far.
\<close>

record worker =
  session :: "nat option"
  sessions_made :: nat
  requests_made :: nat

type_synonym network = "nat \<Rightarrow> nat \<Rightarrow> pystr \<Rightarrow> real \<Rightarrow> outcome"

definition get_session :: "bool \<Rightarrow> worker \<Rightarrow> nat \<times> worker" where
  "get_session force_new w =
     (let w1 = (if force_new then w\<lparr>session := None\<rparr> else w)
      in case session w1 of
           None \<Rightarrow>
             (sessions_made w1,
              w1\<lparr>session := Some (sessions_made w1), sessions_made := Suc (sessions_made w1)\<rparr>)
         | Some s \<Rightarrow> (s, w1))"

definition session_get :: "network \<Rightarrow> nat \<Rightarrow> pystr \<Rightarrow> real \<Rightarrow> worker \<Rightarrow> outcome \<times> worker" where
  "session_get net s url timeout w =
     (net (requests_made w) s url timeout, w\<lparr>requests_made := Suc (requests_made w)\<rparr>)"

text \<open>
  \<open>safe_get\<close>: the loop over \<open>range(max_retries + 1)\<close>, with the variable \<open>last\<close> (here \<open>last_seen\<close>).
  The sleep between attempts changes no value and is left out.
\<close>

fun safe_get_loop ::
  "unicode \<Rightarrow> network \<Rightarrow> nat \<Rightarrow> pystr \<Rightarrow> real \<Rightarrow> nat list \<Rightarrow> response option \<times> pystr \<Rightarrow> worker
     \<Rightarrow> (response option \<times> pystr) \<times> worker" where
  "safe_get_loop U net s url timeout [] last_seen w = (last_seen, w)"
| "safe_get_loop U net s url timeout (attempt # rest) last_seen w =
     (case session_get net s url timeout w of
        (Raises, w1) \<Rightarrow> safe_get_loop U net s url timeout rest (None, []) w1
      | (Returns resp, w1) \<Rightarrow>
          let html = (case resp of Some r \<Rightarrow> resp_text r | None \<Rightarrow> [])
          in if \<not> detect_soft_block U resp html then ((resp, html), w1)
             else safe_get_loop U net s url timeout rest (resp, html) w1)"

definition safe_get ::
  "unicode \<Rightarrow> network \<Rightarrow> nat \<Rightarrow> pystr \<Rightarrow> real \<Rightarrow> int \<Rightarrow> worker
     \<Rightarrow> (response option \<times> pystr) \<times> worker" where
  "safe_get U net s url timeout max_retries w =
     safe_get_loop U net s url timeout [0..<nat (max_retries + 1)] (None, []) w"

section \<open>The merchant extractor\<close>

text \<open>
  The parsed page is read through a fixed set of queries only. A \<open>soup\<close> holds what
  each query returns: \<open>label_el\<close> and \<open>text_el\<close> for the two \<open>select_one\<close> calls on
  the merchant-info block (\<open>None\<close> when no element matches), \<open>seller_links\<close> for the
  \<open>select\<close> of the fallback links, \<open>page_text\<close> for \<open>soup.get_text(" ", strip=True)\<close>
  and \<open>prime_hint\<close> for the presence of a Prime badge. Of an element only the result
  of \<open>get_text(" ", strip=True)\<close> is read; of the merchant text element also that of
  its first seller anchor and of its first feature span, where they exist.
\<close>

record element =
  a_text :: "pystr option"
  sp_text :: "pystr option"
  root_text :: pystr

record soup =
  label_el :: "pystr option"
  text_el :: "element option"
  seller_links :: "pystr list"
  page_text :: pystr
  prime_hint :: bool

definition clean :: "pystr \<Rightarrow> pystr" where
  "clean s =
     (let s1 = normalize_spaces s
      in if s1 = [] then SEM_OFERTA
         else let s2 = py_strip (re_sub_ws False s1)
              in if s2 \<noteq> [] then take 80 s2 else SEM_OFERTA)"

definition pick_merchant_text :: "element option \<Rightarrow> pystr" where
  "pick_merchant_text root_el =
     (case root_el of
        None \<Rightarrow> SEM_OFERTA
      | Some el \<Rightarrow>
          (case a_text el of
             Some t \<Rightarrow> clean t
           | None \<Rightarrow> (case sp_text el of Some t \<Rightarrow> clean t | None \<Rightarrow> clean (root_text el))))"

text \<open>
  The loop over the fallback seller links: it returns from the extractor with the
  operator pair, or leaves the loop with a seller name, or runs to its end.
\<close>

datatype link_scan = ReturnAmazon | Found pystr | NotFound

fun scan_seller_links :: "unicode \<Rightarrow> pystr list \<Rightarrow> link_scan" where
  "scan_seller_links U [] = NotFound"
| "scan_seller_links U (link # links) =
     (let name = clean link
      in if name \<noteq> SEM_OFERTA \<and> length (py_split name) \<le> 6
         then (if is_amazon_name U name then ReturnAmazon else Found name)
         else scan_seller_links U links)"

definition extract_sold_shipped_from_dp :: "unicode \<Rightarrow> soup \<Rightarrow> pystr \<times> pystr" where
  "extract_sold_shipped_from_dp U soup =
     (let vendido = SEM_OFERTA;
          enviado = SEM_OFERTA;
          label_txt = (case label_el soup of Some t \<Rightarrow> py_lower U (clean t) | None \<Rightarrow> []);
          merchant_txt = pick_merchant_text (text_el soup)
      in if merchant_txt \<noteq> SEM_OFERTA \<and> is_amazon_name U merchant_txt
         then (ascii ''Amazon'', ascii ''Amazon'')
         else
           let (vendido, enviado) =
                 (if merchant_txt \<noteq> SEM_OFERTA
                  then (merchant_txt,
                        if contains (ascii ''enviado / vendido'') label_txt
                           \<or> contains (ascii ''shipped from and sold by'') label_txt
                        then merchant_txt else SEM_OFERTA)
                  else (vendido, enviado))
           in case (if vendido = SEM_OFERTA then scan_seller_links U (seller_links soup)
                    else NotFound) of
                ReturnAmazon \<Rightarrow> (ascii ''Amazon'', ascii ''Amazon'')
              | scanned \<Rightarrow>
                  let vendido = (case scanned of Found name \<Rightarrow> name | _ \<Rightarrow> vendido);
                      enviado =
                        (if vendido \<noteq> SEM_OFERTA \<and> enviado = SEM_OFERTA
                         then (let page = py_lower U (page_text soup)
                               in if contains (ascii ''enviado por amazon'') page
                                     \<or> contains (ascii ''ships from amazon'') page
                                  then ascii ''Amazon''
                                  else if prime_hint soup then ascii ''Amazon'' else vendido)
                         else enviado)
                  in if vendido = SEM_OFERTA \<and> enviado = SEM_OFERTA
                     then (SEM_OFERTA, SEM_OFERTA)
                     else (vendido, enviado))"

section \<open>The recovery loop\<close>

text \<open>Lines 266 to 270 of \<open>scrape_one_asin\<close>: the status of a (seller, shipper) pair.\<close>

definition classify_status :: "unicode \<Rightarrow> pystr \<Rightarrow> pystr \<Rightarrow> pystr" where
  "classify_status U vendido enviado =
     (if vendido = SEM_OFERTA \<and> enviado = SEM_OFERTA then ascii ''Sem Oferta''
      else let fo_amazon = is_amazon_name U vendido \<and> is_amazon_name U enviado
           in if fo_amazon then ascii ''Amazon FO'' else ascii ''LFO'')"

type_synonym scraped = "pystr \<times> pystr \<times> pystr \<times> pystr"

definition reprocessar :: "pystr \<Rightarrow> scraped" where
  "reprocessar asin = (asin, REPROCESSAR_LABEL, REPROCESSAR_LABEL, ascii ''REPROCESSAR'')"

text \<open>
  The parser \<open>BeautifulSoup(html, "html.parser")\<close> is the parameter \<open>parse\<close>. The
  call stands outside every \<open>try\<close>, and the parser rejects some markup with an
  exception: then \<open>scrape_one_asin\<close> raises, which is the result \<open>Inl\<close>.
\<close>

datatype py_error = ParserRejectedMarkup

text \<open>
  The loop over \<open>range(MAX_BLOCKED_CYCLES + 1)\<close>; \<open>continue\<close> is the call on the
  remaining cycles, and the empty list is the \<open>return\<close> after the loop. Sleeps are left
  out.
\<close>

fun scrape_loop ::
  "unicode \<Rightarrow> (pystr \<Rightarrow> py_error + soup) \<Rightarrow> network \<Rightarrow> pystr \<Rightarrow> pystr \<Rightarrow> nat list \<Rightarrow> worker
     \<Rightarrow> (py_error + scraped) \<times> worker" where
  "scrape_loop U parse net asin url [] w = (Inr (reprocessar asin), w)"
| "scrape_loop U parse net asin url (cycle # rest) w =
     (case get_session (cycle > 0) w of
        (s, w1) \<Rightarrow>
          (case safe_get U net s url REQUEST_TIMEOUT SAFEGET_RETRIES_PER_CYCLE w1 of
             ((resp, html), w2) \<Rightarrow>
               (case resp of
                  None \<Rightarrow>
                    if cycle < MAX_BLOCKED_CYCLES then scrape_loop U parse net asin url rest w2
                    else (Inr (reprocessar asin), w2)
                | Some r \<Rightarrow>
                    if html = [] then
                      (if cycle < MAX_BLOCKED_CYCLES then scrape_loop U parse net asin url rest w2
                       else (Inr (reprocessar asin), w2))
                    else if detect_soft_block U resp html then
                      (if cycle < MAX_BLOCKED_CYCLES then scrape_loop U parse net asin url rest w2
                       else (Inr (reprocessar asin), w2))
                    else if status_code r \<noteq> 200 then
                      (Inr (asin, ascii ''Sem Oferta'', ascii ''Sem Oferta'', ascii ''Sem Oferta''), w2)
                    else
                      (case parse html of
                         Inl e \<Rightarrow> (Inl e, w2)
                       | Inr soup \<Rightarrow>
                           (case extract_sold_shipped_from_dp U soup of
                              (vendido, enviado) \<Rightarrow>
                                (Inr (asin, vendido, enviado, classify_status U vendido enviado),
                                 w2))))))"

definition asin_url :: "pystr \<Rightarrow> pystr" where
  "asin_url asin = AMAZON_DOMAIN @ ascii ''/dp/'' @ asin @ ascii ''?language=pt_BR''"

definition scrape_one_asin ::
  "unicode \<Rightarrow> (pystr \<Rightarrow> py_error + soup) \<Rightarrow> network \<Rightarrow> pystr \<Rightarrow> worker
     \<Rightarrow> (py_error + scraped) \<times> worker" where
  "scrape_one_asin U parse net asin w =
     scrape_loop U parse net asin (asin_url asin) [0..<MAX_BLOCKED_CYCLES + 1] w"

section \<open>The coordinator\<close>




section \<open>The identifier validator of the route\<close>

text \<open>
  Lines 975 to 978 of \<open>index\<close>: commas become spaces, the text is split at white
  space, every token that is not blank is trimmed and upper-cased, and the results
  that pass \<open>is_valid_asin\<close> are kept, in a list.
\<close>

definition index_tokens :: "pystr \<Rightarrow> pystr list" where
  "index_tokens asin_text =
     (let raw_text = map (\<lambda>c. if c = 44 then 32 else c) asin_text
      in re_split_ws raw_text)"

definition index_valid_asins :: "unicode \<Rightarrow> pystr \<Rightarrow> pystr list" where
  "index_valid_asins U asin_text =
     (let tokens = index_tokens asin_text;
          asins_raw = map (\<lambda>a. py_upper U (py_strip a)) (filter (\<lambda>a. py_strip a \<noteq> []) tokens)
      in filter (is_valid_asin U) asins_raw)"

section \<open>The specification's vocabulary\<close>

text \<open>
  The four statuses of the specification and the string that the program writes for
  each of them.
\<close>

datatype status = OperatorFulfilled | ThirdPartyOffer | NoOffer | NeedsReprocess

fun status_label :: "status \<Rightarrow> pystr" where
  "status_label OperatorFulfilled = ascii ''Amazon FO''"
| "status_label ThirdPartyOffer = ascii ''LFO''"
| "status_label NoOffer = ascii ''Sem Oferta''"
| "status_label NeedsReprocess = ascii ''REPROCESSAR''"

text \<open>
  The classifier in the specification's words: both the sentinel, else both an
  operator name, else a third-party offer.
\<close>

definition classify :: "unicode \<Rightarrow> pystr \<Rightarrow> pystr \<Rightarrow> status" where
  "classify U seller shipper =
     (if seller = SEM_OFERTA \<and> shipper = SEM_OFERTA then NoOffer
      else if is_amazon_name U seller \<and> is_amazon_name U shipper then OperatorFulfilled
      else ThirdPartyOffer)"

text \<open>
  What \<open>safe_get\<close> observes of one request, and whether the block detector rejects
  it. A request that raises is observed as no response and an empty body.
\<close>

definition observed :: "outcome \<Rightarrow> response option \<times> pystr" where
  "observed out =
     (case out of
        Raises \<Rightarrow> (None, [])
      | Returns resp \<Rightarrow> (resp, case resp of Some r \<Rightarrow> resp_text r | None \<Rightarrow> []))"

definition outcome_blocked :: "unicode \<Rightarrow> outcome \<Rightarrow> bool" where
  "outcome_blocked U out = detect_soft_block U (fst (observed out)) (snd (observed out))"

text \<open>
  A recovery cycle fails when its fetch ends with no response, an empty body or a
  detected block. \<open>every_cycle_fails\<close> follows the worker through the given cycles
  and says that each of them fails.
\<close>

definition cycle_failed :: "unicode \<Rightarrow> response option \<times> pystr \<Rightarrow> bool" where
  "cycle_failed U res = (fst res = None \<or> snd res = [] \<or> detect_soft_block U (fst res) (snd res))"

fun every_cycle_fails :: "unicode \<Rightarrow> network \<Rightarrow> pystr \<Rightarrow> nat list \<Rightarrow> worker \<Rightarrow> bool" where
  "every_cycle_fails U net url [] w = True"
| "every_cycle_fails U net url (cycle # rest) w =
     (case get_session (cycle > 0) w of
        (s, w1) \<Rightarrow>
          (case safe_get U net s url REQUEST_TIMEOUT SAFEGET_RETRIES_PER_CYCLE w1 of
             (res, w2) \<Rightarrow> cycle_failed U res \<and> every_cycle_fails U net url rest w2))"

text \<open>
  A value as the extractor produces it from a text: not empty, at most 80 characters,
  and the first 80 characters of a text that \<open>normalize_spaces\<close> leaves unchanged.
\<close>

definition truncated_text :: "pystr \<Rightarrow> bool" where
  "truncated_text x =
     (x \<noteq> [] \<and> length x \<le> 80 \<and> (\<exists>t. normalize_spaces t = t \<and> x = take 80 t))"

section \<open>Examples\<close>

text \<open>
  The rows of the Unicode tables that the examples read: U+00DF (the sharp s) is a
  letter, and its upper case is the two letters SS. The ASCII letters of a string
  with other characters change case as usual. No example reads another row.
\<close>

definition example_unicode :: unicode where
  "example_unicode =
     \<lparr>isalnum_cp = (\<lambda>c. c = 223),
      lower_str = map ascii_lower,
      upper_str = (\<lambda>s. concat (map (\<lambda>c. if c = 223 then [83, 83] else [ascii_upper c]) s))\<rparr>"

text \<open>A worker thread that has not made a session yet.\<close>

definition fresh_worker :: worker where
  "fresh_worker = \<lparr>session = None, sessions_made = 0, requests_made = 0\<rparr>"

text \<open>Networks: one that always fails, one that always answers 404, one that
  answers the first three requests with 503 and then serves a page, and one that
  serves an empty body with status 200.\<close>

definition net_down :: network where
  "net_down = (\<lambda>k s url timeout. Raises)"

definition net_404 :: network where
  "net_404 = (\<lambda>k s url timeout. Returns (Some \<lparr>status_code = 404, resp_text = ascii ''Not Found''\<rparr>))"

definition net_busy_then_page :: "pystr \<Rightarrow> network" where
  "net_busy_then_page page =
     (\<lambda>k s url timeout.
        if k < 3 then Returns (Some \<lparr>status_code = 503, resp_text = ascii ''Service Unavailable''\<rparr>)
        else Returns (Some \<lparr>status_code = 200, resp_text = page\<rparr>))"

definition net_empty :: network where
  "net_empty = (\<lambda>k s url timeout. Returns (Some \<lparr>status_code = 200, resp_text = []\<rparr>))"

definition net_page :: "pystr \<Rightarrow> network" where
  "net_page page = (\<lambda>k s url timeout. Returns (Some \<lparr>status_code = 200, resp_text = page\<rparr>))"

text \<open>
  A stand-in for the parser. It rejects the body \<open><![foo[x]]>\<close>, an unknown marked
  section, which the parser of the source rejects too. Of any other body it makes a
  page whose merchant text element has the body as its text, with no label, no links
  and no badge.
\<close>

definition plain_soup :: "pystr \<Rightarrow> soup" where
  "plain_soup html =
     \<lparr>label_el = None,
      text_el = Some \<lparr>a_text = None, sp_text = None, root_text = html\<rparr>,
      seller_links = [],
      page_text = html,
      prime_hint = False\<rparr>"

definition plain_parse :: "pystr \<Rightarrow> py_error + soup" where
  "plain_parse html =
     (if html = ascii ''<![foo[x]]>'' then Inl ParserRejectedMarkup else Inr (plain_soup html))"

text \<open>
  A page whose merchant text element holds the merchant name in a feature span, with
  no seller anchor, no fallback link and no badge.
\<close>

definition example_soup :: "pystr option \<Rightarrow> pystr \<Rightarrow> soup" where
  "example_soup label merchant =
     \<lparr>label_el = label,
      text_el = Some \<lparr>a_text = None, sp_text = Some merchant, root_text = merchant\<rparr>,
      seller_links = [],
      page_text = merchant,
      prime_hint = False\<rparr>"

section \<open>Substrings\<close>

text \<open>The definitions that the evaluation of a concrete string unfolds.\<close>

lemmas string_defs = ascii_def isspace_def is_ascii_def ascii_lower_def ascii_upper_def
  ascii_alnum_def py_lower_def py_upper_def alnum_cp_def py_isalnum_def py_strip_def py_split_def
  re_split_ws_def normalize_spaces_def SEM_OFERTA_def REPROCESSAR_LABEL_def
  AMAZON_RETAIL_HINTS_def is_amazon_name_def clean_def Let_def

lemmas example_defs = example_unicode_def fresh_worker_def net_down_def net_404_def
  net_busy_then_page_def net_empty_def net_page_def plain_parse_def plain_soup_def
  example_soup_def

lemmas fetch_defs = get_session_def session_get_def safe_get_def detect_soft_block_def
  asin_url_def AMAZON_DOMAIN_def REQUEST_TIMEOUT_def SAFEGET_RETRIES_PER_CYCLE_def
  MAX_BLOCKED_CYCLES_def upt_rec cycle_failed_def

lemma starts_with_iff: "starts_with needle hay \<longleftrightarrow> (\<exists>post. hay = needle @ post)"
  by (induction needle hay rule: starts_with.induct) auto

lemma contains_iff: "contains needle hay \<longleftrightarrow> (\<exists>pre post. hay = pre @ needle @ post)"
proof (induction hay)
  case Nil
  show ?case by simp
next
  case (Cons h hs)
  show ?case
  proof
    assume "contains needle (h # hs)"
    then consider "starts_with needle (h # hs)" | "contains needle hs" by auto
    then show "\<exists>pre post. h # hs = pre @ needle @ post"
    proof cases
      case 1
      then obtain post where "h # hs = needle @ post" by (auto simp: starts_with_iff)
      then have "h # hs = [] @ needle @ post" by simp
      then show ?thesis by blast
    next
      case 2
      with Cons obtain pre post where "hs = pre @ needle @ post" by auto
      then have "h # hs = (h # pre) @ needle @ post" by simp
      then show ?thesis by blast
    qed
  next
    assume "\<exists>pre post. h # hs = pre @ needle @ post"
    then obtain pre post where eq: "h # hs = pre @ needle @ post" by blast
    show "contains needle (h # hs)"
    proof (cases pre)
      case Nil
      with eq have "starts_with needle (h # hs)" by (auto simp: starts_with_iff)
      then show ?thesis by simp
    next
      case (Cons p ps)
      with eq have "hs = ps @ needle @ post" by simp
      with Cons.IH have "contains needle hs" by blast
      then show ?thesis by simp
    qed
  qed
qed

section \<open>White-space normalization\<close>

lemma isspace_32: "isspace 32"
  by (simp add: isspace_def)

lemma split_acc_words:
  "\<forall>c\<in>set cur. \<not> isspace c \<Longrightarrow>
     \<forall>w\<in>set (split_acc cur s). w \<noteq> [] \<and> (\<forall>c\<in>set w. \<not> isspace c)"
proof (induction s arbitrary: cur)
  case Nil
  then show ?case by auto
next
  case (Cons c cs)
  have a: "\<forall>w\<in>set (split_acc [] cs). w \<noteq> [] \<and> (\<forall>c\<in>set w. \<not> isspace c)"
    using Cons.IH [of "[]"] by simp
  have b: "\<forall>w\<in>set (split_acc (c # cur) cs). w \<noteq> [] \<and> (\<forall>c\<in>set w. \<not> isspace c)"
    if "\<not> isspace c"
    using Cons.IH [of "c # cur"] Cons.prems that by simp
  show ?case
  proof (cases "isspace c")
    case True
    with a Cons.prems show ?thesis by auto
  next
    case False
    with b show ?thesis by simp
  qed
qed

lemma split_acc_word:
  "\<forall>c\<in>set w. \<not> isspace c \<Longrightarrow> split_acc cur (w @ rest) = split_acc (rev w @ cur) rest"
  by (induction w arbitrary: cur) auto

lemma split_join:
  "\<forall>w\<in>set ws. w \<noteq> [] \<and> (\<forall>c\<in>set w. \<not> isspace c) \<Longrightarrow>
     split_acc [] (py_join [32] ws) = ws"
proof (induction "[32::nat]" ws rule: py_join.induct)
  case 1
  show ?case by simp
next
  case (2 x)
  then have "split_acc [] (x @ []) = split_acc (rev x @ []) []"
    by (intro split_acc_word) simp
  with 2 show ?case by simp
next
  case (3 x y ys)
  then have "split_acc [] (x @ 32 # py_join [32] (y # ys)) =
             split_acc (rev x @ []) (32 # py_join [32] (y # ys))"
    by (intro split_acc_word) simp
  with 3 show ?case by (simp add: isspace_32)
qed

lemma join_ends:
  "\<forall>w\<in>set ws. w \<noteq> [] \<and> (\<forall>c\<in>set w. \<not> isspace c) \<Longrightarrow> ws \<noteq> [] \<Longrightarrow>
     py_join [32] ws \<noteq> [] \<and> \<not> isspace (hd (py_join [32] ws)) \<and> \<not> isspace (last (py_join [32] ws))"
  by (induction "[32::nat]" ws rule: py_join.induct) auto

lemma strip_id:
  "s = [] \<or> (\<not> isspace (hd s) \<and> \<not> isspace (last s)) \<Longrightarrow> py_strip s = s"
proof -
  assume a: "s = [] \<or> (\<not> isspace (hd s) \<and> \<not> isspace (last s))"
  then have 1: "dropWhile isspace s = s" by (auto simp: dropWhile_eq_self_iff)
  from a have "rev s = [] \<or> \<not> isspace (hd (rev s))" by (auto simp: hd_rev)
  then have 2: "dropWhile isspace (rev s) = rev s" unfolding dropWhile_eq_self_iff .
  show ?thesis by (simp add: py_strip_def 1 2)
qed

lemma strip_join:
  assumes "\<forall>w\<in>set ws. w \<noteq> [] \<and> (\<forall>c\<in>set w. \<not> isspace c)"
  shows "py_strip (py_join [32] ws) = py_join [32] ws"
proof (cases ws)
  case Nil
  then show ?thesis by (simp add: py_strip_def)
next
  case (Cons w ws')
  with assms join_ends [of ws] show ?thesis by (intro strip_id) simp
qed

lemma re_sub_word:
  "\<forall>c\<in>set w. \<not> isspace c \<Longrightarrow> w \<noteq> [] \<Longrightarrow> re_sub_ws b (w @ rest) = w @ re_sub_ws False rest"
proof (induction w arbitrary: b)
  case Nil
  then show ?case by simp
next
  case (Cons c cs)
  then show ?case by (cases cs) auto
qed

lemma re_sub_join:
  "\<forall>w\<in>set ws. w \<noteq> [] \<and> (\<forall>c\<in>set w. \<not> isspace c) \<Longrightarrow>
     re_sub_ws b (py_join [32] ws) = py_join [32] ws"
proof (induction "[32::nat]" ws arbitrary: b rule: py_join.induct)
  case 1
  show ?case by simp
next
  case (2 x)
  then have "re_sub_ws b (x @ []) = x @ re_sub_ws False []"
    by (intro re_sub_word) simp_all
  then show ?case by simp
next
  case (3 x y ys)
  then have "re_sub_ws b (x @ 32 # py_join [32] (y # ys)) = x @ re_sub_ws False (32 # py_join [32] (y # ys))"
    by (intro re_sub_word) simp_all
  moreover have "re_sub_ws True (py_join [32] (y # ys)) = py_join [32] (y # ys)"
    using 3 by simp
  ultimately show ?case by (simp add: isspace_32)
qed

lemma split_words: "\<forall>w\<in>set (py_split s). w \<noteq> [] \<and> (\<forall>c\<in>set w. \<not> isspace c)"
  unfolding py_split_def by (rule split_acc_words) simp

lemma ascii_space: "ascii '' '' = [32]"
  by (simp add: ascii_def)

lemma normalize_spaces_join: "normalize_spaces s = py_join [32] (py_split s)"
  by (simp add: normalize_spaces_def ascii_space strip_join split_words)

lemma normalize_spaces_idem: "normalize_spaces (normalize_spaces s) = normalize_spaces s"
proof -
  have "py_split (py_join [32] (py_split s)) = py_split s"
    unfolding py_split_def [of "py_join [32] (py_split s)"]
    by (rule split_join) (rule split_words)
  then show ?thesis by (simp add: normalize_spaces_join)
qed

lemma clean_eq:
  "clean s = (if normalize_spaces s = [] then SEM_OFERTA else take 80 (normalize_spaces s))"
proof -
  have "re_sub_ws False (normalize_spaces s) = normalize_spaces s"
    by (simp add: normalize_spaces_join re_sub_join split_words)
  moreover have "py_strip (normalize_spaces s) = normalize_spaces s"
    by (simp add: normalize_spaces_join strip_join split_words)
  ultimately show ?thesis by (simp add: clean_def Let_def)
qed

section \<open>The block detector\<close>

text \<open>
  Claim C7. The block detector reports a block exactly when the response is absent,
  or its status is 429 or 503, or the lower-cased body contains the CAPTCHA prompt,
  or the automated-access notice, or both "sorry" and "robot"; in every other case it
  reports no block.
\<close>

theorem detect_soft_block_iff:
  "detect_soft_block U resp html \<longleftrightarrow>
     (resp = None
      \<or> (\<exists>r. resp = Some r \<and> (status_code r = 429 \<or> status_code r = 503))
      \<or> (\<exists>pre post. py_lower U html =
            pre @ (ascii ''digite os caracteres que voc'' @ [234] @ ascii '' v'' @ [234]) @ post)
      \<or> (\<exists>pre post. py_lower U html = pre @ ascii ''to discuss automated access'' @ post)
      \<or> ((\<exists>pre post. py_lower U html = pre @ ascii ''sorry'' @ post)
          \<and> (\<exists>pre post. py_lower U html = pre @ ascii ''robot'' @ post)))"
proof (cases resp)
  case None
  then show ?thesis by (simp add: detect_soft_block_def)
next
  case (Some r)
  then show ?thesis
    unfolding detect_soft_block_def contains_iff [symmetric] Let_def
    by auto
qed

section \<open>The fetch cycle\<close>

lemma outcome_blocked_Raises: "outcome_blocked U Raises"
  by (simp add: outcome_blocked_def observed_def detect_soft_block_def)

lemma safe_get_loop_step_blocked:
  assumes "outcome_blocked U (net (requests_made w) s url timeout)"
  shows "safe_get_loop U net s url timeout (a # rest) l w =
           safe_get_loop U net s url timeout rest (observed (net (requests_made w) s url timeout))
             (w\<lparr>requests_made := Suc (requests_made w)\<rparr>)"
  using assms
  by (cases "net (requests_made w) s url timeout")
     (auto simp: session_get_def outcome_blocked_def observed_def Let_def split: option.splits)

lemma safe_get_loop_step_usable:
  assumes "\<not> outcome_blocked U (net (requests_made w) s url timeout)"
  shows "safe_get_loop U net s url timeout (a # rest) l w =
           (observed (net (requests_made w) s url timeout), w\<lparr>requests_made := Suc (requests_made w)\<rparr>)"
  using assms outcome_blocked_Raises [of U]
  by (cases "net (requests_made w) s url timeout")
     (auto simp: session_get_def outcome_blocked_def observed_def Let_def split: option.splits)

lemma safe_get_loop_all_blocked:
  "(\<forall>j<length as. outcome_blocked U (net (requests_made w + j) s url timeout)) \<Longrightarrow>
     safe_get_loop U net s url timeout as l w =
       ((if as = [] then l else observed (net (requests_made w + length as - 1) s url timeout)),
        w\<lparr>requests_made := requests_made w + length as\<rparr>)"
proof (induction as arbitrary: l w)
  case Nil
  show ?case by simp
next
  case (Cons a rest)
  from Cons.prems have b0: "outcome_blocked U (net (requests_made w) s url timeout)" by force
  let ?w1 = "w\<lparr>requests_made := Suc (requests_made w)\<rparr>"
  have later: "\<forall>j<length rest. outcome_blocked U (net (requests_made ?w1 + j) s url timeout)"
  proof (intro allI impI)
    fix j assume "j < length rest"
    then have "Suc j < length (a # rest)" by simp
    with Cons.prems have "outcome_blocked U (net (requests_made w + Suc j) s url timeout)" by blast
    then show "outcome_blocked U (net (requests_made ?w1 + j) s url timeout)" by simp
  qed
  have "safe_get_loop U net s url timeout (a # rest) l w =
          safe_get_loop U net s url timeout rest (observed (net (requests_made w) s url timeout)) ?w1"
    using b0 by (rule safe_get_loop_step_blocked)
  also note Cons.IH [OF later]
  finally show ?case by (cases rest) simp_all
qed

lemma safe_get_loop_first_usable:
  "j < length as \<Longrightarrow> \<not> outcome_blocked U (net (requests_made w + j) s url timeout) \<Longrightarrow>
   (\<forall>i<j. outcome_blocked U (net (requests_made w + i) s url timeout)) \<Longrightarrow>
     safe_get_loop U net s url timeout as l w =
       (observed (net (requests_made w + j) s url timeout),
        w\<lparr>requests_made := requests_made w + j + 1\<rparr>)"
proof (induction as arbitrary: l w j)
  case Nil
  then show ?case by simp
next
  case (Cons a rest)
  show ?case
  proof (cases j)
    case 0
    with Cons.prems have "\<not> outcome_blocked U (net (requests_made w) s url timeout)" by simp
    then have "safe_get_loop U net s url timeout (a # rest) l w =
           (observed (net (requests_made w) s url timeout), w\<lparr>requests_made := Suc (requests_made w)\<rparr>)"
      by (rule safe_get_loop_step_usable)
    with 0 show ?thesis by simp
  next
    case (Suc k)
    with Cons.prems have b0: "outcome_blocked U (net (requests_made w) s url timeout)" by force
    let ?w1 = "w\<lparr>requests_made := Suc (requests_made w)\<rparr>"
    have k: "k < length rest" using Cons.prems Suc by simp
    have nb: "\<not> outcome_blocked U (net (requests_made ?w1 + k) s url timeout)"
      using Cons.prems Suc by simp
    have bl: "\<forall>i<k. outcome_blocked U (net (requests_made ?w1 + i) s url timeout)"
    proof (intro allI impI)
      fix i assume "i < k"
      then have "Suc i < j" using Suc by simp
      with Cons.prems have "outcome_blocked U (net (requests_made w + Suc i) s url timeout)" by blast
      then show "outcome_blocked U (net (requests_made ?w1 + i) s url timeout)" by simp
    qed
    have "safe_get_loop U net s url timeout (a # rest) l w =
          safe_get_loop U net s url timeout rest (observed (net (requests_made w) s url timeout)) ?w1"
      using b0 by (rule safe_get_loop_step_blocked)
    also note Cons.IH [OF k nb bl]
    finally show ?thesis using Suc by simp
  qed
qed

lemma first_usable_exists:
  "\<not> (\<forall>j<n. P j) \<Longrightarrow> \<exists>j<n. \<not> P j \<and> (\<forall>i<j. P i)" for n :: nat
proof -
  assume "\<not> (\<forall>j<n. P j)"
  then obtain j where j: "j < n" "\<not> P j" by blast
  define m where "m = (LEAST j. \<not> P j)"
  have "\<not> P m" unfolding m_def using j(2) by (rule LeastI)
  moreover have "m \<le> j" unfolding m_def using j(2) by (rule Least_le)
  moreover have "\<forall>i<m. P i" using not_less_Least m_def by blast
  ultimately have "m < n \<and> \<not> P m \<and> (\<forall>i<m. P i)" using j(1) by simp
  then show ?thesis by blast
qed

text \<open>
  Claim C6. A call of \<open>safe_get\<close> issues at most \<open>max_retries + 1\<close> requests (none
  when that number is not positive). When request \<open>j\<close> is the first one that the block
  detector accepts, the call returns what that request gave, right after it. When the
  detector rejects every request, all of them are issued and the call returns what the
  last one gave, which is no response and an empty body if it raised (and also if no
  request was issued). A request that raises is an outcome like the others: the call
  returns a pair in every case, and when every request raises that pair is no response
  and an empty body.
\<close>

theorem safe_get_attempts:
  assumes "safe_get U net s url timeout max_retries w = (res, w')"
  shows "requests_made w' \<le> requests_made w + nat (max_retries + 1)
    \<and> (\<forall>j. j < nat (max_retries + 1)
          \<and> \<not> outcome_blocked U (net (requests_made w + j) s url timeout)
          \<and> (\<forall>i<j. outcome_blocked U (net (requests_made w + i) s url timeout))
        \<longrightarrow> res = observed (net (requests_made w + j) s url timeout)
            \<and> requests_made w' = requests_made w + j + 1)
    \<and> ((\<forall>j<nat (max_retries + 1). outcome_blocked U (net (requests_made w + j) s url timeout))
        \<longrightarrow> requests_made w' = requests_made w + nat (max_retries + 1)
            \<and> res = (if max_retries + 1 \<le> 0 then (None, [])
                     else observed (net (requests_made w + nat max_retries) s url timeout)))
    \<and> ((\<forall>j<nat (max_retries + 1). net (requests_made w + j) s url timeout = Raises)
        \<longrightarrow> res = (None, []))"
proof -
  let ?n = "nat (max_retries + 1)"
  let ?as = "[0..<?n]"
  let ?B = "\<lambda>j. outcome_blocked U (net (requests_made w + j) s url timeout)"
  have run: "safe_get_loop U net s url timeout ?as (None, []) w = (res, w')"
    using assms by (simp add: safe_get_def)
  have first: "res = observed (net (requests_made w + j) s url timeout)
      \<and> requests_made w' = requests_made w + j + 1"
    if "j < ?n" "\<not> ?B j" "\<forall>i<j. ?B i" for j
  proof -
    from that have "j < length ?as" by simp
    then have "safe_get_loop U net s url timeout ?as (None, []) w =
       (observed (net (requests_made w + j) s url timeout),
        w\<lparr>requests_made := requests_made w + j + 1\<rparr>)"
      using that(2) that(3) by (rule safe_get_loop_first_usable)
    with run show ?thesis by auto
  qed
  have all: "requests_made w' = requests_made w + ?n
      \<and> res = (if max_retries + 1 \<le> 0 then (None, [])
               else observed (net (requests_made w + nat max_retries) s url timeout))"
    if "\<forall>j<?n. ?B j"
  proof -
    from that have "\<forall>j<length ?as. ?B j" by simp
    then have "safe_get_loop U net s url timeout ?as (None, []) w =
       ((if ?as = [] then (None, []) else
           observed (net (requests_made w + length ?as - 1) s url timeout)),
        w\<lparr>requests_made := requests_made w + length ?as\<rparr>)"
      by (rule safe_get_loop_all_blocked)
    with run
    have eq: "(res, w') = ((if ?as = [] then (None, []) else
                   observed (net (requests_made w + length ?as - 1) s url timeout)),
                w\<lparr>requests_made := requests_made w + length ?as\<rparr>)" by simp
    have "?n - 1 = nat max_retries" by simp
    moreover have "requests_made w + ?n - 1 = requests_made w + (?n - 1)" if "0 < ?n"
      using that by simp
    ultimately show ?thesis using eq by (auto simp: nat_add_distrib)
  qed
  have bound: "requests_made w' \<le> requests_made w + ?n"
  proof (cases "\<forall>j<?n. ?B j")
    case True
    with all show ?thesis by simp
  next
    case False
    then obtain j where "j < ?n" "\<not> ?B j" "\<forall>i<j. ?B i"
      using first_usable_exists [of ?n ?B] by blast
    with first [of j] show ?thesis by simp
  qed
  have raised: "res = (None, [])"
    if r: "\<forall>j<?n. net (requests_made w + j) s url timeout = Raises"
  proof -
    from r have "\<forall>j<?n. ?B j" by (simp add: outcome_blocked_Raises)
    with all have res: "res = (if max_retries + 1 \<le> 0 then (None, [])
               else observed (net (requests_made w + nat max_retries) s url timeout))"
      by blast
    show ?thesis
    proof (cases "max_retries + 1 \<le> 0")
      case True
      with res show ?thesis by simp
    next
      case False
      then have "nat max_retries < ?n" by simp
      with r have "net (requests_made w + nat max_retries) s url timeout = Raises" by blast
      with res False show ?thesis by (simp add: observed_def)
    qed
  qed
  from bound first all raised show ?thesis by blast
qed

theorem safe_get_attempts_witness:
  "safe_get example_unicode (net_busy_then_page (ascii ''Loja XYZ'')) 0 (ascii ''u'') 10 3 fresh_worker =
     ((Some \<lparr>status_code = 200, resp_text = ascii ''Loja XYZ''\<rparr>, ascii ''Loja XYZ''),
      \<lparr>session = None, sessions_made = 0, requests_made = 4\<rparr>)
   \<and> (3::nat) < nat (3 + 1)
   \<and> \<not> outcome_blocked example_unicode
        (net_busy_then_page (ascii ''Loja XYZ'') (requests_made fresh_worker + 3) 0 (ascii ''u'') 10)
   \<and> outcome_blocked example_unicode
        (net_busy_then_page (ascii ''Loja XYZ'') (requests_made fresh_worker + 0) 0 (ascii ''u'') 10)
   \<and> outcome_blocked example_unicode
        (net_busy_then_page (ascii ''Loja XYZ'') (requests_made fresh_worker + 1) 0 (ascii ''u'') 10)
   \<and> outcome_blocked example_unicode
        (net_busy_then_page (ascii ''Loja XYZ'') (requests_made fresh_worker + 2) 0 (ascii ''u'') 10)
   \<and> (Some \<lparr>status_code = 200, resp_text = ascii ''Loja XYZ''\<rparr>, ascii ''Loja XYZ'') =
       observed (net_busy_then_page (ascii ''Loja XYZ'') (requests_made fresh_worker + 3) 0 (ascii ''u'') 10)
   \<and> requests_made \<lparr>session = None, sessions_made = 0, requests_made = 4\<rparr> =
       requests_made fresh_worker + 3 + 1
   \<and> safe_get example_unicode (net_busy_then_page (ascii ''Loja XYZ'')) 0 (ascii ''u'') 10 2 fresh_worker =
     ((Some \<lparr>status_code = 503, resp_text = ascii ''Service Unavailable''\<rparr>,
       ascii ''Service Unavailable''),
      \<lparr>session = None, sessions_made = 0, requests_made = 3\<rparr>)
   \<and> (Some \<lparr>status_code = 503, resp_text = ascii ''Service Unavailable''\<rparr>,
       ascii ''Service Unavailable'') =
       observed (net_busy_then_page (ascii ''Loja XYZ'') (requests_made fresh_worker + nat 2) 0 (ascii ''u'') 10)
   \<and> requests_made \<lparr>session = None, sessions_made = 0, requests_made = 3\<rparr> =
       requests_made fresh_worker + nat (2 + 1)
   \<and> safe_get example_unicode net_down 0 (ascii ''u'') 10 2 fresh_worker =
       ((None, []), \<lparr>session = None, sessions_made = 0, requests_made = 3\<rparr>)"
proof -
  let ?net = "net_busy_then_page (ascii ''Loja XYZ'')"
  have run: "safe_get example_unicode ?net 0 (ascii ''u'') 10 3 fresh_worker =
     ((Some \<lparr>status_code = 200, resp_text = ascii ''Loja XYZ''\<rparr>, ascii ''Loja XYZ''),
      \<lparr>session = None, sessions_made = 0, requests_made = 4\<rparr>)"
    by (simp add: string_defs example_defs fetch_defs)
  have j: "(3::nat) < nat (3 + 1)" by simp
  have usable: "\<not> outcome_blocked example_unicode (?net (requests_made fresh_worker + 3) 0 (ascii ''u'') 10)"
    by (simp add: outcome_blocked_def observed_def string_defs example_defs fetch_defs)
  have blocked: "\<forall>i<3. outcome_blocked example_unicode (?net (requests_made fresh_worker + i) 0 (ascii ''u'') 10)"
    by (simp add: outcome_blocked_def observed_def string_defs example_defs fetch_defs)
  from safe_get_attempts [OF run] j usable blocked
  have "(Some \<lparr>status_code = 200, resp_text = ascii ''Loja XYZ''\<rparr>, ascii ''Loja XYZ'') =
       observed (?net (requests_made fresh_worker + 3) 0 (ascii ''u'') 10)
     \<and> requests_made \<lparr>session = None, sessions_made = 0, requests_made = 4\<rparr> =
       requests_made fresh_worker + 3 + 1"
    by blast
  moreover have "outcome_blocked example_unicode (?net (requests_made fresh_worker + 0) 0 (ascii ''u'') 10)"
    and "outcome_blocked example_unicode (?net (requests_made fresh_worker + 1) 0 (ascii ''u'') 10)"
    and "outcome_blocked example_unicode (?net (requests_made fresh_worker + 2) 0 (ascii ''u'') 10)"
    by (simp_all add: outcome_blocked_def observed_def string_defs example_defs fetch_defs)
  moreover have run2: "safe_get example_unicode ?net 0 (ascii ''u'') 10 2 fresh_worker =
     ((Some \<lparr>status_code = 503, resp_text = ascii ''Service Unavailable''\<rparr>,
       ascii ''Service Unavailable''),
      \<lparr>session = None, sessions_made = 0, requests_made = 3\<rparr>)"
    by (simp add: string_defs example_defs fetch_defs)
  moreover have blocked2: "\<forall>i<nat (2 + 1). outcome_blocked example_unicode
      (?net (requests_made fresh_worker + i) 0 (ascii ''u'') 10)"
    by (simp add: outcome_blocked_def observed_def string_defs example_defs fetch_defs)
  from safe_get_attempts [OF run2] blocked2
  have "(Some \<lparr>status_code = 503, resp_text = ascii ''Service Unavailable''\<rparr>,
       ascii ''Service Unavailable'') =
       observed (?net (requests_made fresh_worker + nat 2) 0 (ascii ''u'') 10)
     \<and> requests_made \<lparr>session = None, sessions_made = 0, requests_made = 3\<rparr> =
       requests_made fresh_worker + nat (2 + 1)"
    by simp
  moreover have "safe_get example_unicode net_down 0 (ascii ''u'') 10 2 fresh_worker =
       ((None, []), \<lparr>session = None, sessions_made = 0, requests_made = 3\<rparr>)"
    by (simp add: string_defs example_defs fetch_defs)
  ultimately show ?thesis using run j usable by blast
qed

section \<open>The extractor and the classifier\<close>

lemma amazon_not_sentinel: "ascii ''Amazon'' \<noteq> SEM_OFERTA"
  by (simp add: ascii_def SEM_OFERTA_def)

lemma sentinel_not_amazon: "\<not> is_amazon_name U SEM_OFERTA"
  by (simp add: string_defs)

lemma amazon_is_amazon: "is_amazon_name U (ascii ''Amazon'')"
  by (simp add: string_defs)

lemma scan_Found_not_sentinel: "scan_seller_links U links = Found name \<Longrightarrow> name \<noteq> SEM_OFERTA"
  by (induction links) (auto simp: Let_def split: if_splits)

lemma classify_status_label:
  "classify_status U seller shipper = status_label (classify U seller shipper)"
  by (simp add: classify_status_def classify_def Let_def)

text \<open>
  Claim C10. The extractor returns the sentinel as seller exactly when it returns the
  sentinel as shipper: no pair has one side resolved and the other side the sentinel.
\<close>

theorem extract_sentinel_iff:
  "fst (extract_sold_shipped_from_dp U soup) = SEM_OFERTA
     \<longleftrightarrow> snd (extract_sold_shipped_from_dp U soup) = SEM_OFERTA"
  using amazon_not_sentinel
  by (auto simp: extract_sold_shipped_from_dp_def Let_def
      split: link_scan.splits if_splits dest: scan_Found_not_sentinel)

text \<open>
  Claim C5. When the text that the merchant-info block resolves to matches an operator
  name, the extractor returns the operator as seller and as shipper, and the status of
  that pair is the operator-fulfilled one, whatever the label and the rest of the page
  say.
\<close>

theorem merchant_operator_short_circuit:
  assumes "is_amazon_name U (pick_merchant_text (text_el soup))"
  shows "extract_sold_shipped_from_dp U soup = (ascii ''Amazon'', ascii ''Amazon'')
         \<and> classify_status U (fst (extract_sold_shipped_from_dp U soup))
              (snd (extract_sold_shipped_from_dp U soup)) = status_label OperatorFulfilled"
proof -
  from assms have "pick_merchant_text (text_el soup) \<noteq> SEM_OFERTA"
    using sentinel_not_amazon by metis
  with assms have "extract_sold_shipped_from_dp U soup = (ascii ''Amazon'', ascii ''Amazon'')"
    by (simp add: extract_sold_shipped_from_dp_def Let_def)
  then show ?thesis
    using amazon_not_sentinel amazon_is_amazon by (simp add: classify_status_def)
qed

theorem merchant_operator_short_circuit_witness:
  "is_amazon_name example_unicode
     (pick_merchant_text
        (text_el (example_soup (Some (ascii ''Vendido por'')) (ascii ''Amazon.com.br''))))
   \<and> extract_sold_shipped_from_dp example_unicode
        (example_soup (Some (ascii ''Vendido por'')) (ascii ''Amazon.com.br''))
      = (ascii ''Amazon'', ascii ''Amazon'')"
proof -
  have h: "is_amazon_name example_unicode
     (pick_merchant_text
        (text_el (example_soup (Some (ascii ''Vendido por'')) (ascii ''Amazon.com.br''))))"
    by (simp add: string_defs example_defs pick_merchant_text_def)
  show ?thesis
    using h merchant_operator_short_circuit [OF h] by simp
qed

lemma clean_truncated: "clean s = SEM_OFERTA \<or> truncated_text (clean s)"
proof (cases "normalize_spaces s = []")
  case True
  then show ?thesis by (simp add: clean_eq)
next
  case False
  have "normalize_spaces (normalize_spaces s) = normalize_spaces s"
    by (rule normalize_spaces_idem)
  then have "\<exists>t. normalize_spaces t = t \<and> take 80 (normalize_spaces s) = take 80 t"
    by blast
  with False show ?thesis by (simp add: clean_eq truncated_text_def)
qed

lemma amazon_truncated: "truncated_text (ascii ''Amazon'')"
proof -
  have "normalize_spaces (ascii ''Amazon'') = ascii ''Amazon''"
    by (simp add: string_defs)
  moreover have "ascii ''Amazon'' = take 80 (ascii ''Amazon'')" by (simp add: ascii_def)
  moreover have "ascii ''Amazon'' \<noteq> []" "length (ascii ''Amazon'') \<le> 80" by (simp_all add: ascii_def)
  ultimately show ?thesis unfolding truncated_text_def by blast
qed

lemma pick_merchant_truncated:
  "pick_merchant_text r = SEM_OFERTA \<or> truncated_text (pick_merchant_text r)"
  using clean_truncated by (auto simp: pick_merchant_text_def split: option.splits)

lemma scan_Found_truncated: "scan_seller_links U links = Found name \<Longrightarrow> truncated_text name"
proof (induction links)
  case Nil
  then show ?case by simp
next
  case (Cons link links)
  then show ?case using clean_truncated [of link] by (auto simp: Let_def split: if_splits)
qed

text \<open>
  Claim C9, as amended. Each of the seller and the shipper that the extractor returns
  is the sentinel, or a string that is not empty, has at most 80 characters and is the
  first 80 characters of a white-space-normalized text. A text that is empty after
  normalization is cleaned to the sentinel, and no cleaned text is empty.
\<close>

theorem extract_values_truncated:
  "(fst (extract_sold_shipped_from_dp U soup) = SEM_OFERTA
      \<or> (fst (extract_sold_shipped_from_dp U soup) \<noteq> []
          \<and> length (fst (extract_sold_shipped_from_dp U soup)) \<le> 80
          \<and> (\<exists>t. normalize_spaces t = t \<and> fst (extract_sold_shipped_from_dp U soup) = take 80 t)))
   \<and> (snd (extract_sold_shipped_from_dp U soup) = SEM_OFERTA
      \<or> (snd (extract_sold_shipped_from_dp U soup) \<noteq> []
          \<and> length (snd (extract_sold_shipped_from_dp U soup)) \<le> 80
          \<and> (\<exists>t. normalize_spaces t = t \<and> snd (extract_sold_shipped_from_dp U soup) = take 80 t)))
   \<and> clean s \<noteq> []
   \<and> (normalize_spaces s = [] \<longrightarrow> clean s = SEM_OFERTA)"
proof -
  let ?E = "extract_sold_shipped_from_dp U soup"
  have m: "pick_merchant_text (text_el soup) = SEM_OFERTA
           \<or> truncated_text (pick_merchant_text (text_el soup))"
    by (rule pick_merchant_truncated)
  have "(fst ?E = SEM_OFERTA \<or> truncated_text (fst ?E)) \<and> (snd ?E = SEM_OFERTA \<or> truncated_text (snd ?E))"
    using m amazon_truncated
    by (auto simp: extract_sold_shipped_from_dp_def Let_def
        split: link_scan.splits if_splits dest: scan_Found_truncated)
  moreover have "clean s \<noteq> []"
    using clean_truncated [of s] by (auto simp: truncated_text_def SEM_OFERTA_def ascii_def)
  moreover have "normalize_spaces s = [] \<longrightarrow> clean s = SEM_OFERTA"
    by (simp add: clean_eq)
  ultimately show ?thesis unfolding truncated_text_def by blast
qed

theorem extract_values_truncated_witness:
  "normalize_spaces (ascii ''   '') = [] \<and> clean (ascii ''   '') = SEM_OFERTA"
proof -
  have h: "normalize_spaces (ascii ''   '') = []" by (simp add: string_defs)
  with extract_values_truncated [of example_unicode "plain_soup []" "ascii ''   ''"]
  show ?thesis by blast
qed

text \<open>
  The claim as stated fails where the cut falls right after a space: the seller below
  has 80 characters and ends with a space, so it is not white-space-normalized.
\<close>

theorem extractor_value_not_normalized:
  "fst (extract_sold_shipped_from_dp example_unicode
        (example_soup None
          (ascii ''aaaaaaaaaaaaaaaaaaaaaaaaaaaaaaaaaaaaaaaaaaaaaaaaaaaaaaaaaaaaaaaaaaaaaaaaaaaaaaa bcd'')))
     = ascii ''aaaaaaaaaaaaaaaaaaaaaaaaaaaaaaaaaaaaaaaaaaaaaaaaaaaaaaaaaaaaaaaaaaaaaaaaaaaaaaa ''
   \<and> ascii ''aaaaaaaaaaaaaaaaaaaaaaaaaaaaaaaaaaaaaaaaaaaaaaaaaaaaaaaaaaaaaaaaaaaaaaaaaaaaaaa '' \<noteq> SEM_OFERTA
   \<and> normalize_spaces (ascii ''aaaaaaaaaaaaaaaaaaaaaaaaaaaaaaaaaaaaaaaaaaaaaaaaaaaaaaaaaaaaaaaaaaaaaaaaaaaaaaa '')
       = ascii ''aaaaaaaaaaaaaaaaaaaaaaaaaaaaaaaaaaaaaaaaaaaaaaaaaaaaaaaaaaaaaaaaaaaaaaaaaaaaaaa''
   \<and> normalize_spaces (ascii ''aaaaaaaaaaaaaaaaaaaaaaaaaaaaaaaaaaaaaaaaaaaaaaaaaaaaaaaaaaaaaaaaaaaaaaaaaaaaaaa '')
       \<noteq> ascii ''aaaaaaaaaaaaaaaaaaaaaaaaaaaaaaaaaaaaaaaaaaaaaaaaaaaaaaaaaaaaaaaaaaaaaaaaaaaaaaa ''"
  by (simp add: string_defs example_defs extract_sold_shipped_from_dp_def pick_merchant_text_def)

section \<open>The recovery loop\<close>

text \<open>
  Claim C1. In a cycle whose fetch is usable and has status 200, the record carries
  the pair that the extractor returns for the parsed body, and its status is the
  classification of that pair alone: no offer when both are the sentinel, else
  operator-fulfilled when both match an operator name, else third-party offer.
\<close>

theorem status_is_classify_of_pair:
  assumes "get_session (0 < cycle) w = (s, w1)"
    and "safe_get U net s url REQUEST_TIMEOUT SAFEGET_RETRIES_PER_CYCLE w1 = ((Some r, html), w2)"
    and "html \<noteq> []"
    and "\<not> detect_soft_block U (Some r) html"
    and "status_code r = 200"
    and "parse html = Inr soup"
    and "extract_sold_shipped_from_dp U soup = (seller, shipper)"
  shows "scrape_loop U parse net asin url (cycle # rest) w =
           (Inr (asin, seller, shipper, status_label (classify U seller shipper)), w2)"
  using assms by (simp add: classify_status_label)

theorem status_is_classify_of_pair_witness:
  "get_session (0 < (1::nat)) \<lparr>session = Some 0, sessions_made = 1, requests_made = 3\<rparr> =
      (1, \<lparr>session = Some 1, sessions_made = 2, requests_made = 3\<rparr>)
   \<and> safe_get example_unicode (net_busy_then_page (ascii ''Loja XYZ'')) 1
        (asin_url (ascii ''B000000001'')) REQUEST_TIMEOUT SAFEGET_RETRIES_PER_CYCLE
        \<lparr>session = Some 1, sessions_made = 2, requests_made = 3\<rparr> =
      ((Some \<lparr>status_code = 200, resp_text = ascii ''Loja XYZ''\<rparr>, ascii ''Loja XYZ''),
       \<lparr>session = Some 1, sessions_made = 2, requests_made = 4\<rparr>)
   \<and> plain_parse (ascii ''Loja XYZ'') = Inr (plain_soup (ascii ''Loja XYZ''))
   \<and> extract_sold_shipped_from_dp example_unicode (plain_soup (ascii ''Loja XYZ'')) =
      (ascii ''Loja XYZ'', ascii ''Loja XYZ'')
   \<and> scrape_loop example_unicode plain_parse (net_busy_then_page (ascii ''Loja XYZ''))
        (ascii ''B000000001'') (asin_url (ascii ''B000000001'')) [1, 2, 3]
        \<lparr>session = Some 0, sessions_made = 1, requests_made = 3\<rparr> =
      (Inr (ascii ''B000000001'', ascii ''Loja XYZ'', ascii ''Loja XYZ'', ascii ''LFO''),
       \<lparr>session = Some 1, sessions_made = 2, requests_made = 4\<rparr>)"
proof -
  have h1: "get_session (0 < (1::nat)) \<lparr>session = Some 0, sessions_made = 1, requests_made = 3\<rparr> =
      (1, \<lparr>session = Some 1, sessions_made = 2, requests_made = 3\<rparr>)"
    by (simp add: get_session_def)
  have h2: "safe_get example_unicode (net_busy_then_page (ascii ''Loja XYZ'')) 1
        (asin_url (ascii ''B000000001'')) REQUEST_TIMEOUT SAFEGET_RETRIES_PER_CYCLE
        \<lparr>session = Some 1, sessions_made = 2, requests_made = 3\<rparr> =
      ((Some \<lparr>status_code = 200, resp_text = ascii ''Loja XYZ''\<rparr>, ascii ''Loja XYZ''),
       \<lparr>session = Some 1, sessions_made = 2, requests_made = 4\<rparr>)"
    by (simp add: string_defs example_defs fetch_defs)
  have h3: "ascii ''Loja XYZ'' \<noteq> []" by (simp add: ascii_def)
  have h4: "\<not> detect_soft_block example_unicode
      (Some \<lparr>status_code = 200, resp_text = ascii ''Loja XYZ''\<rparr>) (ascii ''Loja XYZ'')"
    by (simp add: string_defs example_defs fetch_defs)
  have h5: "status_code \<lparr>status_code = 200, resp_text = ascii ''Loja XYZ''\<rparr> = 200" by simp
  have h6: "plain_parse (ascii ''Loja XYZ'') = Inr (plain_soup (ascii ''Loja XYZ''))"
    by (simp add: plain_parse_def ascii_def)
  have h7: "extract_sold_shipped_from_dp example_unicode (plain_soup (ascii ''Loja XYZ'')) =
      (ascii ''Loja XYZ'', ascii ''Loja XYZ'')"
    by (simp add: string_defs example_defs extract_sold_shipped_from_dp_def pick_merchant_text_def)
  have c: "status_label (classify example_unicode (ascii ''Loja XYZ'') (ascii ''Loja XYZ'')) = ascii ''LFO''"
    by (simp add: string_defs example_defs classify_def)
  show ?thesis
    using h1 h2 h6 h7 c
      status_is_classify_of_pair [where parse = plain_parse and asin = "ascii ''B000000001''"
        and rest = "[2, 3]", OF h1 h2 h3 h4 h5 h6 h7]
    by simp
qed

text \<open>
  Claim C4. In a cycle whose fetch is usable (a response, a body that is not empty, no
  block detected) and has a status other than 200, the loop returns at once with
  seller, shipper and status all the no-offer sentinel; the worker is left as the
  fetch left it, so no further request is made and no further cycle is started.
\<close>

theorem non_success_status_no_offer:
  assumes "get_session (0 < cycle) w = (s, w1)"
    and "safe_get U net s url REQUEST_TIMEOUT SAFEGET_RETRIES_PER_CYCLE w1 = ((Some r, html), w2)"
    and "html \<noteq> []"
    and "\<not> detect_soft_block U (Some r) html"
    and "status_code r \<noteq> 200"
  shows "scrape_loop U parse net asin url (cycle # rest) w =
           (Inr (asin, SEM_OFERTA, SEM_OFERTA, status_label NoOffer), w2)"
  using assms by (simp add: SEM_OFERTA_def)

theorem non_success_status_no_offer_witness:
  "get_session (0 < (0::nat)) fresh_worker =
      (0, \<lparr>session = Some 0, sessions_made = 1, requests_made = 0\<rparr>)
   \<and> safe_get example_unicode net_404 0 (asin_url (ascii ''B000000001'')) REQUEST_TIMEOUT
        SAFEGET_RETRIES_PER_CYCLE \<lparr>session = Some 0, sessions_made = 1, requests_made = 0\<rparr> =
      ((Some \<lparr>status_code = 404, resp_text = ascii ''Not Found''\<rparr>, ascii ''Not Found''),
       \<lparr>session = Some 0, sessions_made = 1, requests_made = 1\<rparr>)
   \<and> scrape_loop example_unicode plain_parse net_404 (ascii ''B000000001'')
        (asin_url (ascii ''B000000001'')) [0, 1, 2, 3] fresh_worker =
      (Inr (ascii ''B000000001'', SEM_OFERTA, SEM_OFERTA, ascii ''Sem Oferta''),
       \<lparr>session = Some 0, sessions_made = 1, requests_made = 1\<rparr>)"
proof -
  have h1: "get_session (0 < (0::nat)) fresh_worker =
      (0, \<lparr>session = Some 0, sessions_made = 1, requests_made = 0\<rparr>)"
    by (simp add: get_session_def fresh_worker_def)
  have h2: "safe_get example_unicode net_404 0 (asin_url (ascii ''B000000001'')) REQUEST_TIMEOUT
        SAFEGET_RETRIES_PER_CYCLE \<lparr>session = Some 0, sessions_made = 1, requests_made = 0\<rparr> =
      ((Some \<lparr>status_code = 404, resp_text = ascii ''Not Found''\<rparr>, ascii ''Not Found''),
       \<lparr>session = Some 0, sessions_made = 1, requests_made = 1\<rparr>)"
    by (simp add: string_defs example_defs fetch_defs)
  have h3: "ascii ''Not Found'' \<noteq> []" by (simp add: ascii_def)
  have h4: "\<not> detect_soft_block example_unicode
      (Some \<lparr>status_code = 404, resp_text = ascii ''Not Found''\<rparr>) (ascii ''Not Found'')"
    by (simp add: string_defs example_defs fetch_defs)
  have h5: "status_code \<lparr>status_code = 404, resp_text = ascii ''Not Found''\<rparr> \<noteq> 200" by simp
  show ?thesis
    using h1 h2
      non_success_status_no_offer [OF h1 h2 h3 h4 h5, of plain_parse "ascii ''B000000001''" "[1, 2, 3]"]
    by simp
qed

lemma scrape_loop_all_fail:
  "every_cycle_fails U net url cycles w \<Longrightarrow>
     fst (scrape_loop U parse net asin url cycles w) = Inr (reprocessar asin)"
proof (induction cycles arbitrary: w)
  case Nil
  show ?case by simp
next
  case (Cons cycle rest)
  obtain s w1 where gs: "get_session (0 < cycle) w = (s, w1)"
    by (cases "get_session (0 < cycle) w")
  obtain resp html w2 where sg:
    "safe_get U net s url REQUEST_TIMEOUT SAFEGET_RETRIES_PER_CYCLE w1 = ((resp, html), w2)"
    by (cases "safe_get U net s url REQUEST_TIMEOUT SAFEGET_RETRIES_PER_CYCLE w1") auto
  from Cons.prems gs sg have failed: "cycle_failed U (resp, html)"
    and later: "every_cycle_fails U net url rest w2" by simp_all
  from Cons.IH [OF later]
  have ih: "fst (scrape_loop U parse net asin url rest w2) = Inr (reprocessar asin)" .
  from failed gs sg ih show ?case
    by (cases resp) (auto simp: cycle_failed_def)
qed

text \<open>
  Claim C2. When every recovery cycle, from cycle 0 to the cycle limit, ends with a
  detected block, no response or an empty body, the record has the reprocessing
  sentinel as seller and as shipper and the reprocessing status, which differ from the
  no-offer sentinel and the no-offer status.
\<close>

theorem exhausted_recovery_reprocess:
  assumes "every_cycle_fails U net (asin_url asin) [0..<MAX_BLOCKED_CYCLES + 1] w"
  shows "fst (scrape_one_asin U parse net asin w) =
           Inr (asin, REPROCESSAR_LABEL, REPROCESSAR_LABEL, status_label NeedsReprocess)
         \<and> REPROCESSAR_LABEL \<noteq> SEM_OFERTA
         \<and> status_label NeedsReprocess \<noteq> status_label NoOffer"
proof -
  have "fst (scrape_one_asin U parse net asin w) = Inr (reprocessar asin)"
    unfolding scrape_one_asin_def using assms by (rule scrape_loop_all_fail)
  moreover have "REPROCESSAR_LABEL \<noteq> SEM_OFERTA"
    by (simp add: REPROCESSAR_LABEL_def SEM_OFERTA_def ascii_def)
  moreover have "status_label NeedsReprocess \<noteq> status_label NoOffer"
    by (simp add: ascii_def)
  ultimately show ?thesis by (simp add: reprocessar_def)
qed

theorem exhausted_recovery_reprocess_witness:
  "every_cycle_fails example_unicode net_empty (asin_url (ascii ''B000000001''))
       [0..<MAX_BLOCKED_CYCLES + 1] fresh_worker
   \<and> fst (scrape_one_asin example_unicode plain_parse net_empty (ascii ''B000000001'') fresh_worker) =
       Inr (ascii ''B000000001'', ascii ''Reprocessar'', ascii ''Reprocessar'', ascii ''REPROCESSAR'')"
proof -
  have h: "every_cycle_fails example_unicode net_empty (asin_url (ascii ''B000000001''))
       [0..<MAX_BLOCKED_CYCLES + 1] fresh_worker"
    by (simp add: string_defs example_defs fetch_defs)
  show ?thesis
    using h exhausted_recovery_reprocess [OF h, of plain_parse]
    by (simp add: REPROCESSAR_LABEL_def)
qed

section \<open>The result mapping\<close>

















section \<open>The kept identifiers\<close>

lemma re_split_acc_pieces:
  "\<forall>c\<in>set cur. \<not> isspace c \<and> P c \<Longrightarrow> \<forall>c\<in>set s. P c \<Longrightarrow>
     \<forall>t\<in>set (re_split_acc b cur s). \<forall>c\<in>set t. \<not> isspace c \<and> P c"
proof (induction s arbitrary: b cur)
  case Nil
  then show ?case by simp
next
  case (Cons c cs)
  have rest: "\<forall>c\<in>set cs. P c" using Cons.prems by simp
  have a: "\<forall>t\<in>set (re_split_acc True [] cs). \<forall>c\<in>set t. \<not> isspace c \<and> P c"
    using Cons.IH [of "[]" True] rest by simp
  have b: "\<forall>t\<in>set (re_split_acc False (c # cur) cs). \<forall>c\<in>set t. \<not> isspace c \<and> P c"
    if "\<not> isspace c"
    using Cons.IH [of "c # cur" False] Cons.prems that by simp
  show ?case
  proof (cases "isspace c")
    case True
    with a Cons.prems show ?thesis by auto
  next
    case False
    with b show ?thesis by simp
  qed
qed

lemma index_tokens_chars:
  assumes "t \<in> set (index_tokens asin_text)"
  shows "\<forall>c\<in>set t. \<not> isspace c" and "is_ascii asin_text \<Longrightarrow> is_ascii t"
proof -
  let ?raw = "map (\<lambda>c. if c = 44 then 32 else c) asin_text"
  have t: "t \<in> set (re_split_acc False [] ?raw)"
    using assms by (simp add: index_tokens_def re_split_ws_def)
  have "\<forall>t\<in>set (re_split_acc False [] ?raw). \<forall>c\<in>set t. \<not> isspace c \<and> True"
    by (rule re_split_acc_pieces) simp_all
  with t show "\<forall>c\<in>set t. \<not> isspace c" by blast
  assume "is_ascii asin_text"
  then have "\<forall>c\<in>set ?raw. c < 128" by (auto simp: is_ascii_def list_all_iff)
  then have "\<forall>t\<in>set (re_split_acc False [] ?raw). \<forall>c\<in>set t. \<not> isspace c \<and> c < 128"
    by (intro re_split_acc_pieces) simp_all
  with t show "is_ascii t" by (simp add: is_ascii_def list_all_iff)
qed

lemma strip_wsfree:
  assumes "\<forall>c\<in>set t. \<not> isspace c"
  shows "py_strip t = t"
proof -
  have 1: "dropWhile isspace t = t" by (rule dropWhile_id) (use assms in blast)
  have 2: "dropWhile isspace (rev t) = rev t" by (rule dropWhile_id) (use assms in simp)
  show ?thesis by (simp add: py_strip_def 1 2)
qed

lemma is_valid_asin_iff:
  "is_valid_asin U a \<longleftrightarrow> length (py_strip a) = 10 \<and> list_all (alnum_cp U) (py_strip a)"
  by (auto simp: is_valid_asin_def py_isalnum_def Let_def)

lemma isspace_ascii_upper: "isspace (ascii_upper c) = isspace c"
  by (auto simp: isspace_def ascii_upper_def)

lemma alnum_ascii_upper: "alnum_cp U (ascii_upper c) = alnum_cp U c"
  by (auto simp: alnum_cp_def ascii_alnum_def ascii_upper_def)

lemma valid_ascii_upper:
  assumes "\<forall>c\<in>set t. \<not> isspace c"
  shows "is_valid_asin U (map ascii_upper t) = is_valid_asin U t"
proof -
  have "\<forall>c\<in>set (map ascii_upper t). \<not> isspace c"
    using assms by (simp add: isspace_ascii_upper)
  then have "py_strip (map ascii_upper t) = map ascii_upper t" by (rule strip_wsfree)
  moreover have "py_strip t = t" using assms by (rule strip_wsfree)
  moreover have "list_all (alnum_cp U) (map ascii_upper t) = list_all (alnum_cp U) t"
    by (simp add: list_all_iff alnum_ascii_upper)
  ultimately show ?thesis by (simp add: is_valid_asin_iff)
qed

lemma empty_not_valid: "\<not> is_valid_asin U (py_upper U [])"
  by (simp add: is_valid_asin_iff py_upper_def is_ascii_def py_strip_def)

lemma filter_map_filter:
  "\<forall>x\<in>set xs. \<not> Q x \<longrightarrow> \<not> P (f x) \<Longrightarrow> filter P (map f (filter Q xs)) = filter P (map f xs)"
  by (induction xs) auto

lemma index_valid_asins_normalize_then_test:
  "index_valid_asins U asin_text =
     filter (is_valid_asin U) (map (\<lambda>t. py_upper U (py_strip t)) (index_tokens asin_text))"
  unfolding index_valid_asins_def Let_def
  by (rule filter_map_filter) (simp add: empty_not_valid)

lemma ascii_token_upper:
  assumes "t \<in> set (index_tokens asin_text)" and "is_ascii asin_text"
  shows "py_upper U (py_strip t) = map (\<lambda>c. if 97 \<le> c \<and> c \<le> 122 then c - 32 else c) (py_strip t)"
    and "is_valid_asin U (py_upper U (py_strip t)) \<longleftrightarrow>
           length (py_strip t) = 10
           \<and> list_all (\<lambda>c. (48 \<le> c \<and> c \<le> 57) \<or> (65 \<le> c \<and> c \<le> 90) \<or> (97 \<le> c \<and> c \<le> 122))
                (py_strip t)"
proof -
  from assms(1) have ws: "\<forall>c\<in>set t. \<not> isspace c" by (rule index_tokens_chars(1))
  from assms have a: "is_ascii t" by (rule index_tokens_chars(2))
  from ws have st: "py_strip t = t" by (rule strip_wsfree)
  have up: "ascii_upper = (\<lambda>c. if 97 \<le> c \<and> c \<le> 122 then c - 32 else c)"
    by (rule ext) (simp add: ascii_upper_def)
  from a st show "py_upper U (py_strip t) =
      map (\<lambda>c. if 97 \<le> c \<and> c \<le> 122 then c - 32 else c) (py_strip t)"
    by (simp add: py_upper_def up)
  from a have "list_all (alnum_cp U) t =
      list_all (\<lambda>c. (48 \<le> c \<and> c \<le> 57) \<or> (65 \<le> c \<and> c \<le> 90) \<or> (97 \<le> c \<and> c \<le> 122)) t"
    by (auto simp: is_ascii_def list_all_iff alnum_cp_def ascii_alnum_def)
  moreover from a st have "py_upper U (py_strip t) = map ascii_upper t"
    by (simp add: py_upper_def)
  ultimately show "is_valid_asin U (py_upper U (py_strip t)) \<longleftrightarrow>
           length (py_strip t) = 10
           \<and> list_all (\<lambda>c. (48 \<le> c \<and> c \<le> 57) \<or> (65 \<le> c \<and> c \<le> 90) \<or> (97 \<le> c \<and> c \<le> 122))
                (py_strip t)"
    using valid_ascii_upper [OF ws, of U] is_valid_asin_iff [of U t] st by simp
qed

text \<open>
  Claim C3, as amended. The route keeps a token exactly when its trimmed and upper-cased
  form has, after trimming, exactly 10 characters, all of them alphanumeric; what it
  keeps is that trimmed and upper-cased form, in a list, in the order of the text,
  repeated tokens included; every other token is dropped, and nothing in the
  computation can fail. For a text of ASCII characters this is the same as keeping the
  tokens that after trimming have exactly 10 characters, each a digit or a letter, and
  turning their lower-case letters into upper case.
\<close>

theorem index_valid_asins_tokens:
  "index_valid_asins U asin_text =
     filter (\<lambda>u. length (py_strip u) = 10 \<and> list_all (alnum_cp U) (py_strip u))
       (map (\<lambda>t. py_upper U (py_strip t)) (index_tokens asin_text))
   \<and> (is_ascii asin_text \<longrightarrow>
        index_valid_asins U asin_text =
          map (\<lambda>t. map (\<lambda>c. if 97 \<le> c \<and> c \<le> 122 then c - 32 else c) (py_strip t))
            (filter
               (\<lambda>t. length (py_strip t) = 10
                  \<and> list_all (\<lambda>c. (48 \<le> c \<and> c \<le> 57) \<or> (65 \<le> c \<and> c \<le> 90) \<or> (97 \<le> c \<and> c \<le> 122))
                       (py_strip t))
               (index_tokens asin_text)))"
proof -
  let ?up = "\<lambda>t. map (\<lambda>c. if 97 \<le> c \<and> c \<le> 122 then c - 32 else (c::nat)) (py_strip t)"
  let ?ok = "\<lambda>t. length (py_strip t) = 10
      \<and> list_all (\<lambda>c::nat. (48 \<le> c \<and> c \<le> 57) \<or> (65 \<le> c \<and> c \<le> 90) \<or> (97 \<le> c \<and> c \<le> 122))
           (py_strip t)"
  have general: "index_valid_asins U asin_text =
     filter (\<lambda>u. length (py_strip u) = 10 \<and> list_all (alnum_cp U) (py_strip u))
       (map (\<lambda>t. py_upper U (py_strip t)) (index_tokens asin_text))"
    unfolding index_valid_asins_normalize_then_test
    by (rule filter_cong) (simp_all add: is_valid_asin_iff)
  have "index_valid_asins U asin_text = map ?up (filter ?ok (index_tokens asin_text))"
    if ascii_text: "is_ascii asin_text"
  proof -
    have "index_valid_asins U asin_text =
          map (\<lambda>t. py_upper U (py_strip t))
            (filter (\<lambda>t. is_valid_asin U (py_upper U (py_strip t))) (index_tokens asin_text))"
      by (simp add: index_valid_asins_normalize_then_test filter_map comp_def)
    also have "filter (\<lambda>t. is_valid_asin U (py_upper U (py_strip t))) (index_tokens asin_text) =
               filter ?ok (index_tokens asin_text)"
    proof (rule filter_cong [OF refl])
      fix t assume "t \<in> set (index_tokens asin_text)"
      then show "is_valid_asin U (py_upper U (py_strip t)) = ?ok t"
        using ascii_text by (rule ascii_token_upper(2))
    qed
    also have "map (\<lambda>t. py_upper U (py_strip t)) (filter ?ok (index_tokens asin_text)) =
               map ?up (filter ?ok (index_tokens asin_text))"
    proof (rule map_cong [OF refl])
      fix t assume "t \<in> set (filter ?ok (index_tokens asin_text))"
      then have "t \<in> set (index_tokens asin_text)" by simp
      then show "py_upper U (py_strip t) = ?up t"
        using ascii_text by (rule ascii_token_upper(1))
    qed
    finally show ?thesis .
  qed
  with general show ?thesis by blast
qed

theorem index_valid_asins_tokens_witness:
  "is_ascii (ascii ''b000000001, x  B00ABCDEF2,b000000001 B00000000-'')
   \<and> index_tokens (ascii ''b000000001, x  B00ABCDEF2,b000000001 B00000000-'') =
       [ascii ''b000000001'', ascii ''x'', ascii ''B00ABCDEF2'', ascii ''b000000001'',
        ascii ''B00000000-'']
   \<and> index_valid_asins example_unicode (ascii ''b000000001, x  B00ABCDEF2,b000000001 B00000000-'') =
       [ascii ''B000000001'', ascii ''B00ABCDEF2'', ascii ''B000000001'']"
proof -
  let ?text = "ascii ''b000000001, x  B00ABCDEF2,b000000001 B00000000-''"
  have h: "is_ascii ?text"
    by (simp add: string_defs)
  have t: "index_tokens ?text =
       [ascii ''b000000001'', ascii ''x'', ascii ''B00ABCDEF2'', ascii ''b000000001'',
        ascii ''B00000000-'']"
    by (simp add: string_defs index_tokens_def)
  have v: "map (\<lambda>t. map (\<lambda>c. if 97 \<le> c \<and> c \<le> 122 then c - 32 else c) (py_strip t))
            (filter
               (\<lambda>t. length (py_strip t) = 10
                  \<and> list_all (\<lambda>c. (48 \<le> c \<and> c \<le> 57) \<or> (65 \<le> c \<and> c \<le> 90) \<or> (97 \<le> c \<and> c \<le> 122))
                       (py_strip t))
               (index_tokens ?text)) =
       [ascii ''B000000001'', ascii ''B00ABCDEF2'', ascii ''B000000001'']"
    unfolding t by (simp add: string_defs)
  from index_valid_asins_tokens [of example_unicode ?text] h
  have "index_valid_asins example_unicode ?text =
      map (\<lambda>t. map (\<lambda>c. if 97 \<le> c \<and> c \<le> 122 then c - 32 else c) (py_strip t))
            (filter
               (\<lambda>t. length (py_strip t) = 10
                  \<and> list_all (\<lambda>c. (48 \<le> c \<and> c \<le> 57) \<or> (65 \<le> c \<and> c \<le> 90) \<or> (97 \<le> c \<and> c \<le> 122))
                       (py_strip t))
               (index_tokens ?text))"
    by blast
  with h t v show ?thesis by (simp only: simp_thms)
qed

text \<open>
  The claim as stated fails for a token whose upper-cased form is longer than the
  token: the token below has 9 characters after trimming, the last one the sharp s,
  and it is kept, as a string of 10 characters.
\<close>

theorem sharp_s_token_included:
  "index_tokens (ascii ''abcdefgh'' @ [223]) = [ascii ''abcdefgh'' @ [223]]
   \<and> py_strip (ascii ''abcdefgh'' @ [223]) = ascii ''abcdefgh'' @ [223]
   \<and> length (ascii ''abcdefgh'' @ [223]) = 9
   \<and> index_valid_asins example_unicode (ascii ''abcdefgh'' @ [223]) = [ascii ''ABCDEFGHSS'']"
  by (simp add: string_defs example_defs index_tokens_def is_valid_asin_def index_valid_asins_def)

end
